theory Spec2Isabelle
  imports Main "HOL-Library.Word"
begin

section \<open>HashString: an interning table keyed by the hash of the text\<close>

text \<open>
  The development follows \<^verbatim>\<open>src/HashString.h\<close> and \<^verbatim>\<open>src/HashString.cpp\<close>.
  The class keeps one process-wide table \<^verbatim>\<open>s_internedStrings\<close> (a
  \<^verbatim>\<open>std::map< StringID, std::string const >\<close>) and one hash function object
  \<^verbatim>\<open>s_stringHash\<close> (a \<^verbatim>\<open>std::hash<std::string>\<close>). Every function below takes the
  table as an argument and, when it goes through \<^verbatim>\<open>s_internedStrings\<close>, returns the table it
  leaves behind, so that "does not change the table" is a statement and not a typing fact.
\<close>

subsection \<open>Identifiers and the hash\<close>

text \<open>\<^verbatim>\<open>typedef unsigned int StringID;\<close>\<close>

type_synonym StringID = "32 word"

text \<open>
  \<^verbatim>\<open>std::hash<std::string>\<close> is the standard library's; its values are not fixed by the
  repository. It is a parameter \<open>s_stringHash\<close> of every function that hashes, of type
  \<open>string \<Rightarrow> 'w word\<close> for the width \<open>'w\<close> of \<^verbatim>\<open>size_t\<close>. The source writes
  \<^verbatim>\<open>StringID hash_value = (*s_stringHash)( str );\<close>: the \<^verbatim>\<open>size_t\<close> is converted to
  \<^verbatim>\<open>unsigned int\<close>, which keeps its low 32 bits.
\<close>

definition hash_of :: "(string \<Rightarrow> 'w::len word) \<Rightarrow> string \<Rightarrow> StringID" where
  "hash_of s_stringHash str = ucast (s_stringHash str)"

text \<open>
  A sample instance of the parameter, used only to evaluate the functions at concrete
  inputs: the number of bytes of the text, as a 64-bit \<^verbatim>\<open>size_t\<close>. Under it \<open>''ab''\<close>
  and \<open>''cd''\<close> collide.
\<close>

definition length_hash :: "string \<Rightarrow> 64 word" where
  "length_hash str = of_nat (length str)"

subsection \<open>The table and its iterators\<close>

text \<open>
  \<^verbatim>\<open>typedef std::map< StringID, std::string const > InternStringMap;\<close>
  The table is a finite map from identifiers to texts. The order of its keys is observed
  by no function of the class.
\<close>

type_synonym InternStringMap = "StringID \<rightharpoonup> string"

text \<open>
  \<^verbatim>\<open>typedef InternStringMap::const_iterator InternStringMapConstIter;\<close>
  An iterator is either the past-the-end position \<^verbatim>\<open>cend()\<close> (\<open>None\<close>) or the position of
  a node, which is given by the pair the node holds. The key of a node is constant, the
  mapped type is \<^verbatim>\<open>std::string const\<close>, and no function of the class erases a node, so
  what \<^verbatim>\<open>*iter\<close> reads is the pair the node was created with.
\<close>

type_synonym InternStringMapConstIter = "(StringID \<times> string) option"

definition cend :: InternStringMapConstIter where
  "cend = None"

text \<open>\<^verbatim>\<open>std::map::find\<close>: the position of the node with this key, or \<^verbatim>\<open>cend()\<close>.\<close>

definition map_find :: "InternStringMap \<Rightarrow> StringID \<Rightarrow> InternStringMapConstIter" where
  "map_find m k = (case m k of None \<Rightarrow> cend | Some v \<Rightarrow> Some (k, v))"

text \<open>
  \<^verbatim>\<open>std::map::insert\<close> of a pair: when the key is present the table is left as it is and
  the result is the position of the node already there, with \<open>False\<close>; otherwise the pair
  is added and the result is the position of the new node, with \<open>True\<close>.
\<close>

definition map_insert ::
  "InternStringMap \<Rightarrow> StringID \<times> string \<Rightarrow> InternStringMap \<times> (InternStringMapConstIter \<times> bool)" where
  "map_insert m p =
     (case m (fst p) of
        Some v \<Rightarrow> (m, (Some (fst p, v), False))
      | None \<Rightarrow> (m(fst p \<mapsto> snd p), (Some p, True)))"

subsection \<open>Failures\<close>

text \<open>
  \<open>AssertionFailed\<close> is \<^verbatim>\<open>assert ( 0 && "Uninterned HashString Referenced" )\<close>: the macro of
  \<^verbatim>\<open><cassert>\<close> prints the expression and calls \<^verbatim>\<open>abort()\<close>; the model is of a build with
  assertions enabled (no \<^verbatim>\<open>NDEBUG\<close>). \<open>UndefinedBehaviour\<close> is the dereference of
  \<^verbatim>\<open>cend()\<close>.
\<close>

datatype error = AssertionFailed | UndefinedBehaviour

subsection \<open>The static functions\<close>

definition isStringInterned ::
  "(string \<Rightarrow> 'w::len word) \<Rightarrow> InternStringMap \<Rightarrow> string \<Rightarrow> bool \<times> InternStringMap" where
  "isStringInterned s_stringHash m str =
     (let hash_value = hash_of s_stringHash str
      in if map_find m hash_value \<noteq> cend then (True, m) else (False, m))"

definition isStringInterned_id :: "InternStringMap \<Rightarrow> StringID \<Rightarrow> bool \<times> InternStringMap" where
  "isStringInterned_id m hash_value =
     (if map_find m hash_value \<noteq> cend then (True, m) else (False, m))"

definition internString ::
  "(string \<Rightarrow> 'w::len word) \<Rightarrow> InternStringMap \<Rightarrow> string \<Rightarrow> StringID \<times> InternStringMap" where
  "internString s_stringHash m str =
     (let hash_value = hash_of s_stringHash str
      in if map_find m hash_value \<noteq> cend then (hash_value, m)
         else (hash_value, fst (map_insert m (hash_value, str))))"

text \<open>
  \<^verbatim>\<open>rval = (*iter).second;\<close> runs under the guard \<^verbatim>\<open>iter != cend()\<close>, where the
  iterator is the position of a node.
\<close>

definition getStringFromHash :: "InternStringMap \<Rightarrow> StringID \<Rightarrow> string \<times> InternStringMap" where
  "getStringFromHash m ident =
     (let rval = ''''; iter = map_find m ident
      in if iter \<noteq> cend then (snd (the iter), m) else (rval, m))"

text \<open>\<^verbatim>\<open>getInternMap() { return *s_internedStrings; }\<close>: a copy of the table.\<close>

definition getInternMap :: "InternStringMap \<Rightarrow> InternStringMap \<times> InternStringMap" where
  "getInternMap m = (m, m)"

subsection \<open>The handle\<close>

text \<open>
  The header declares \<^verbatim>\<open>m_mapPosition\<close>; \<^verbatim>\<open>m_hashValue\<close> is the member every
  constructor and operator of \<^verbatim>\<open>HashString.cpp\<close> reads and writes, a \<^verbatim>\<open>StringID\<close>.
\<close>

record HashString =
  m_mapPosition :: InternStringMapConstIter
  m_hashValue :: StringID

text \<open>\<^verbatim>\<open>return m_mapPosition->second;\<close>\<close>

definition getString :: "HashString \<Rightarrow> error + string" where
  "getString h =
     (case m_mapPosition h of None \<Rightarrow> Inl UndefinedBehaviour | Some entry \<Rightarrow> Inr (snd entry))"

definition HashString_copy :: "HashString \<Rightarrow> HashString" where
  "HashString_copy other = \<lparr>m_mapPosition = m_mapPosition other, m_hashValue = m_hashValue other\<rparr>"

definition HashString_string ::
  "(string \<Rightarrow> 'w::len word) \<Rightarrow> InternStringMap \<Rightarrow> string \<Rightarrow> HashString \<times> InternStringMap" where
  "HashString_string s_stringHash m str =
     (let hv = hash_of s_stringHash str;
          (m', result) = map_insert m (hv, str)
      in (\<lparr>m_mapPosition = fst result, m_hashValue = hv\<rparr>, m'))"

definition HashString_id :: "InternStringMap \<Rightarrow> StringID \<Rightarrow> (error + HashString) \<times> InternStringMap" where
  "HashString_id m str_id =
     (let pos = map_find m str_id
      in if pos = cend then (Inl AssertionFailed, m)
         else (Inr \<lparr>m_mapPosition = pos, m_hashValue = str_id\<rparr>, m))"

text \<open>
  \<^verbatim>\<open>HashString( char const * c_str ) : HashString( std::string( c_str ) )\<close>: the
  \<^verbatim>\<open>std::string\<close> built from a C string ends before its first NUL.
\<close>

definition HashString_cstr ::
  "(string \<Rightarrow> 'w::len word) \<Rightarrow> InternStringMap \<Rightarrow> string \<Rightarrow> HashString \<times> InternStringMap" where
  "HashString_cstr s_stringHash m c_str =
     HashString_string s_stringHash m (takeWhile (\<lambda>c. c \<noteq> CHR 0x00) c_str)"

subsection \<open>Static initialisation\<close>

text \<open>
  \<^verbatim>\<open>HashStringInitilizer()\<close> creates the table empty
  (\<^verbatim>\<open>new HashString::InternStringMap()\<close>); then
  \<^verbatim>\<open>HashString const HashString::s_kEmptyString("");\<close> runs the constructor from a C
  string. The two are the statics of \<^verbatim>\<open>HashString.cpp\<close>, in this order.
\<close>

definition static_init :: "(string \<Rightarrow> 'w::len word) \<Rightarrow> HashString \<times> InternStringMap" where
  "static_init s_stringHash = HashString_cstr s_stringHash Map.empty ''''"

definition s_kEmptyString :: "(string \<Rightarrow> 'w::len word) \<Rightarrow> HashString" where
  "s_kEmptyString s_stringHash = fst (static_init s_stringHash)"

definition s_internedStrings_init :: "(string \<Rightarrow> 'w::len word) \<Rightarrow> InternStringMap" where
  "s_internedStrings_init s_stringHash = snd (static_init s_stringHash)"

text \<open>\<^verbatim>\<open>HashString() : HashString( s_kEmptyString )\<close>: the copy constructor.\<close>

definition HashString_default :: "(string \<Rightarrow> 'w::len word) \<Rightarrow> HashString" where
  "HashString_default s_stringHash = HashString_copy (s_kEmptyString s_stringHash)"

subsection \<open>Operators\<close>

definition operator_assign :: "HashString \<Rightarrow> HashString \<Rightarrow> HashString" where
  "operator_assign this other =
     this\<lparr>m_mapPosition := m_mapPosition other, m_hashValue := m_hashValue other\<rparr>"

definition operator_lt :: "HashString \<Rightarrow> HashString \<Rightarrow> bool" where
  "operator_lt this other = (m_hashValue this < m_hashValue other)"

definition operator_eq :: "HashString \<Rightarrow> HashString \<Rightarrow> bool" where
  "operator_eq this other = (m_hashValue this = m_hashValue other)"

definition operator_ne :: "HashString \<Rightarrow> HashString \<Rightarrow> bool" where
  "operator_ne this other = (\<not> (m_hashValue this = m_hashValue other))"

definition operator_eq_string :: "HashString \<Rightarrow> string \<Rightarrow> error + bool" where
  "operator_eq_string this other =
     (case getString this of Inl e \<Rightarrow> Inl e | Inr text \<Rightarrow> Inr (text = other))"

definition operator_ne_string :: "HashString \<Rightarrow> string \<Rightarrow> error + bool" where
  "operator_ne_string this other =
     (case getString this of Inl e \<Rightarrow> Inl e | Inr text \<Rightarrow> Inr (\<not> (text = other)))"

definition operator_eq_id :: "HashString \<Rightarrow> StringID \<Rightarrow> bool" where
  "operator_eq_id this other = (m_hashValue this = other)"

definition operator_ne_id :: "HashString \<Rightarrow> StringID \<Rightarrow> bool" where
  "operator_ne_id this other = (m_hashValue this \<noteq> other)"

definition operator_lt_id :: "HashString \<Rightarrow> StringID \<Rightarrow> bool" where
  "operator_lt_id this other = (m_hashValue this < other)"

subsection \<open>Sequences of calls\<close>

text \<open>
  One call of the class's interface. \<open>exec\<close> gives the failure that ends the process, if
  any, and the table after the call; \<open>run\<close> makes the calls of a list in order and stops
  at the first failure, as the process does.
\<close>

datatype operation =
    IsStringInterned string
  | IsStringInternedID StringID
  | InternString string
  | GetStringFromHash StringID
  | GetInternMap
  | NewDefault
  | NewCopy HashString
  | NewFromString string
  | NewFromID StringID
  | NewFromCStr string
  | Assign HashString HashString
  | GetString HashString
  | CompareHandles HashString HashString
  | CompareString HashString string
  | CompareID HashString StringID

definition failure :: "error + 'a \<Rightarrow> error option" where
  "failure r = (case r of Inl e \<Rightarrow> Some e | Inr v \<Rightarrow> None)"

fun exec ::
  "(string \<Rightarrow> 'w::len word) \<Rightarrow> InternStringMap \<Rightarrow> operation \<Rightarrow> error option \<times> InternStringMap" where
  "exec sh m (IsStringInterned str) = (None, snd (isStringInterned sh m str))"
| "exec sh m (IsStringInternedID i) = (None, snd (isStringInterned_id m i))"
| "exec sh m (InternString str) = (None, snd (internString sh m str))"
| "exec sh m (GetStringFromHash i) = (None, snd (getStringFromHash m i))"
| "exec sh m GetInternMap = (None, snd (getInternMap m))"
| "exec sh m NewDefault = (None, m)"
| "exec sh m (NewCopy other) = (None, m)"
| "exec sh m (NewFromString str) = (None, snd (HashString_string sh m str))"
| "exec sh m (NewFromID i) = (failure (fst (HashString_id m i)), snd (HashString_id m i))"
| "exec sh m (NewFromCStr c_str) = (None, snd (HashString_cstr sh m c_str))"
| "exec sh m (Assign this other) = (None, m)"
| "exec sh m (GetString h) = (failure (getString h), m)"
| "exec sh m (CompareHandles a b) = (None, m)"
| "exec sh m (CompareString a str) = (failure (operator_eq_string a str), m)"
| "exec sh m (CompareID a i) = (None, m)"

fun run ::
  "(string \<Rightarrow> 'w::len word) \<Rightarrow> InternStringMap \<Rightarrow> operation list \<Rightarrow> error option \<times> InternStringMap" where
  "run sh m [] = (None, m)"
| "run sh m (c # cs) =
     (case exec sh m c of
        (Some e, m') \<Rightarrow> (Some e, m')
      | (None, m') \<Rightarrow> run sh m' cs)"

text \<open>The table after static initialisation and the calls of a list.\<close>

definition registry_after :: "(string \<Rightarrow> 'w::len word) \<Rightarrow> operation list \<Rightarrow> InternStringMap" where
  "registry_after sh cs = snd (run sh (s_internedStrings_init sh) cs)"

text \<open>The text a call hands to the table, if any.\<close>

fun registers :: "operation \<Rightarrow> string option" where
  "registers (InternString str) = Some str"
| "registers (NewFromString str) = Some str"
| "registers (NewFromCStr c_str) = Some (takeWhile (\<lambda>c. c \<noteq> CHR 0x00) c_str)"
| "registers c = None"

subsection \<open>The invariant of the table and of a handle\<close>

text \<open>Every key is the hash of the text stored under it.\<close>

definition registry_inv :: "(string \<Rightarrow> 'w::len word) \<Rightarrow> InternStringMap \<Rightarrow> bool" where
  "registry_inv sh m = (\<forall>k text. m k = Some text \<longrightarrow> hash_of sh text = k)"

text \<open>
  A handle is bound in a table when its position is the node the table holds for the
  handle's identifier.
\<close>

definition bound_handle :: "InternStringMap \<Rightarrow> HashString \<Rightarrow> bool" where
  "bound_handle m h = (m_mapPosition h \<noteq> cend \<and> m_mapPosition h = map_find m (m_hashValue h))"

section \<open>Properties\<close>

subsection \<open>What each function returns\<close>

lemma map_find_cend_iff: "map_find m k = cend \<longleftrightarrow> m k = None"
  by (simp add: map_find_def cend_def split: option.splits)

lemma map_find_Some_iff: "map_find m k = Some p \<longleftrightarrow> fst p = k \<and> m k = Some (snd p)"
  by (auto simp: map_find_def cend_def split: option.splits)

lemma internString_fst: "fst (internString sh m str) = hash_of sh str"
  by (simp add: internString_def Let_def)

lemma internString_snd:
  "snd (internString sh m str) =
     (case m (hash_of sh str) of None \<Rightarrow> m(hash_of sh str \<mapsto> str) | Some v \<Rightarrow> m)"
  by (simp add: internString_def Let_def map_find_cend_iff map_insert_def split: option.splits)

lemma HashString_string_snd:
  "snd (HashString_string sh m str) = snd (internString sh m str)"
  by (simp add: HashString_string_def internString_snd Let_def map_insert_def split: option.splits)

lemma HashString_cstr_snd:
  "snd (HashString_cstr sh m c_str) =
     snd (internString sh m (takeWhile (\<lambda>c. c \<noteq> CHR 0x00) c_str))"
  by (simp add: HashString_cstr_def HashString_string_snd)

lemma getStringFromHash_snd: "snd (getStringFromHash m i) = m"
  by (simp add: getStringFromHash_def Let_def)

lemma getStringFromHash_fst:
  "fst (getStringFromHash m i) = (case m i of None \<Rightarrow> '''' | Some v \<Rightarrow> v)"
  by (simp add: getStringFromHash_def Let_def map_find_def cend_def split: option.splits)

lemma HashString_id_snd: "snd (HashString_id m i) = m"
  by (simp add: HashString_id_def Let_def)

lemma isStringInterned_fst: "fst (isStringInterned sh m str) \<longleftrightarrow> m (hash_of sh str) \<noteq> None"
  by (simp add: isStringInterned_def Let_def map_find_cend_iff)

lemma isStringInterned_snd: "snd (isStringInterned sh m str) = m"
  by (simp add: isStringInterned_def Let_def)

lemma isStringInterned_id_snd: "snd (isStringInterned_id m i) = m"
  by (simp add: isStringInterned_id_def)

text \<open>What a call does to the table: nothing, or one insertion under the hash of a text.\<close>

lemma exec_snd:
  "snd (exec sh m c) =
     (case registers c of None \<Rightarrow> m | Some str \<Rightarrow> snd (internString sh m str))"
  by (cases c)
    (simp_all add: isStringInterned_snd isStringInterned_id_snd getStringFromHash_snd
      getInternMap_def HashString_id_snd HashString_string_snd HashString_cstr_snd)

lemma internString_map_le: "m \<subseteq>\<^sub>m snd (internString sh m str)"
  by (auto simp: internString_snd map_le_def split: option.splits)

lemma exec_map_le: "m \<subseteq>\<^sub>m snd (exec sh m c)"
  by (simp add: exec_snd internString_map_le split: option.splits)

lemma run_map_le: "m \<subseteq>\<^sub>m snd (run sh m cs)"
proof (induction cs arbitrary: m)
  case Nil
  show ?case by simp
next
  case (Cons c cs)
  obtain r m' where ex: "exec sh m c = (r, m')" by (cases "exec sh m c")
  have le: "m \<subseteq>\<^sub>m m'" using exec_map_le [of m sh c] ex by simp
  show ?case
  proof (cases r)
    case None
    then have "snd (run sh m (c # cs)) = snd (run sh m' cs)" using ex by simp
    then show ?thesis using le Cons.IH [of m'] map_le_trans by metis
  next
    case (Some e)
    then show ?thesis using ex le by simp
  qed
qed

lemma internString_inv:
  "registry_inv sh m \<Longrightarrow> registry_inv sh (snd (internString sh m str))"
  by (auto simp: registry_inv_def internString_snd split: option.splits if_splits)

lemma exec_inv: "registry_inv sh m \<Longrightarrow> registry_inv sh (snd (exec sh m c))"
  by (simp add: exec_snd internString_inv split: option.splits)

lemma run_inv: "registry_inv sh m \<Longrightarrow> registry_inv sh (snd (run sh m cs))"
proof (induction cs arbitrary: m)
  case Nil
  then show ?case by simp
next
  case (Cons c cs)
  obtain r m' where ex: "exec sh m c = (r, m')" by (cases "exec sh m c")
  have inv': "registry_inv sh m'" using exec_inv [OF Cons.prems, of c] ex by simp
  show ?case
  proof (cases r)
    case None
    then show ?thesis using ex Cons.IH [OF inv'] by simp
  next
    case (Some e)
    then show ?thesis using ex inv' by simp
  qed
qed

lemma static_init_eq:
  "static_init sh =
     (\<lparr>m_mapPosition = Some (hash_of sh '''', ''''), m_hashValue = hash_of sh ''''\<rparr>,
      [hash_of sh '''' \<mapsto> ''''])"
  by (simp add: static_init_def HashString_cstr_def HashString_string_def map_insert_def Let_def)

lemma init_inv: "registry_inv sh (s_internedStrings_init sh)"
  by (simp add: s_internedStrings_init_def static_init_eq registry_inv_def)

lemma registry_after_inv: "registry_inv sh (registry_after sh cs)"
  by (simp add: registry_after_def run_inv init_inv)

lemma registry_after_empty: "registry_after sh cs (hash_of sh '''') = Some ''''"
proof -
  have "s_internedStrings_init sh (hash_of sh '''') = Some ''''"
    by (simp add: s_internedStrings_init_def static_init_eq)
  moreover have "s_internedStrings_init sh \<subseteq>\<^sub>m registry_after sh cs"
    unfolding registry_after_def by (rule run_map_le)
  ultimately show ?thesis by (metis domI map_le_def)
qed

lemma run_dom:
  "dom (snd (run sh m cs)) \<subseteq> dom m \<union> hash_of sh ` {str. \<exists>c\<in>set cs. registers c = Some str}"
proof (induction cs arbitrary: m)
  case Nil
  show ?case by simp
next
  case (Cons c cs)
  obtain r m' where ex: "exec sh m c = (r, m')" by (cases "exec sh m c")
  have d: "dom m' \<subseteq> dom m \<union> hash_of sh ` {str. registers c = Some str}"
    using exec_snd [of sh m c] ex by (auto simp: internString_snd split: option.splits)
  show ?case
  proof (cases r)
    case None
    then have "snd (run sh m (c # cs)) = snd (run sh m' cs)" using ex by simp
    then show ?thesis using Cons.IH [of m'] d by auto
  next
    case (Some e)
    then show ?thesis using ex d by auto
  qed
qed

lemma run_after_present: "m k = Some v \<Longrightarrow> snd (run sh m cs) k = Some v"
  using run_map_le [of m sh cs] by (metis domI map_le_def)

lemma internString_present:
  "m (hash_of sh s) = Some v \<Longrightarrow> internString sh m s = (hash_of sh s, m)"
  by (simp add: internString_def Let_def map_find_def cend_def)

lemma internString_stores: "snd (internString sh m s) (hash_of sh s) \<noteq> None"
  by (simp add: internString_snd split: option.splits)

text \<open>
  Identifiers are 32 bits wide and texts are unbounded, so whatever the hash function is,
  two different texts share an identifier.
\<close>

lemma hash_collision_exists: "\<exists>s1 s2. s1 \<noteq> s2 \<and> hash_of sh s1 = hash_of sh s2"
proof -
  have "infinite (UNIV :: string set)" by (rule infinite_UNIV_listI)
  moreover have "finite (range (hash_of sh))" by simp
  ultimately have "\<not> inj (hash_of sh)" using finite_imageD by blast
  then show ?thesis unfolding inj_def by blast
qed

subsection \<open>Handles stay bound\<close>

text \<open>
  Every constructor gives a handle that is bound in the table it leaves, and a bound
  handle stays bound whatever is called afterwards: the table only grows.
\<close>

lemma bound_handle_getString:
  "bound_handle m h \<Longrightarrow> getString h = Inr (fst (getStringFromHash m (m_hashValue h)))"
  by (auto simp: bound_handle_def getString_def getStringFromHash_fst map_find_def cend_def
      split: option.splits)

lemma HashString_string_bound:
  "bound_handle (snd (HashString_string sh m str)) (fst (HashString_string sh m str))"
  by (simp add: HashString_string_def Let_def map_insert_def bound_handle_def map_find_def cend_def
      split: option.splits)

lemma HashString_cstr_bound:
  "bound_handle (snd (HashString_cstr sh m c_str)) (fst (HashString_cstr sh m c_str))"
  by (simp add: HashString_cstr_def HashString_string_bound)

lemma HashString_id_bound: "HashString_id m i = (Inr h, m') \<Longrightarrow> bound_handle m' h"
  by (auto simp: HashString_id_def Let_def bound_handle_def split: if_splits)

lemma HashString_copy_bound: "bound_handle m h \<Longrightarrow> bound_handle m (HashString_copy h)"
  by (auto simp: bound_handle_def HashString_copy_def)

lemma operator_assign_bound: "bound_handle m h \<Longrightarrow> bound_handle m (operator_assign this h)"
  by (auto simp: bound_handle_def operator_assign_def)

lemma bound_handle_map_le: "bound_handle m h \<Longrightarrow> m \<subseteq>\<^sub>m m' \<Longrightarrow> bound_handle m' h"
  by (auto simp: bound_handle_def map_find_def cend_def map_le_def dom_def split: option.splits)

lemma bound_handle_run: "bound_handle m h \<Longrightarrow> bound_handle (snd (run sh m cs)) h"
  using bound_handle_map_le run_map_le by blast

lemma s_kEmptyString_eq:
  "s_kEmptyString sh = \<lparr>m_mapPosition = Some (hash_of sh '''', ''''), m_hashValue = hash_of sh ''''\<rparr>"
  by (simp add: s_kEmptyString_def static_init_eq)

lemma HashString_default_eq:
  "HashString_default sh =
     \<lparr>m_mapPosition = Some (hash_of sh '''', ''''), m_hashValue = hash_of sh ''''\<rparr>"
  by (simp add: HashString_default_def HashString_copy_def s_kEmptyString_eq)

subsection \<open>The sample hash at concrete inputs\<close>

lemma init_length_hash: "s_internedStrings_init length_hash = [0 \<mapsto> '''']"
  by (simp add: s_internedStrings_init_def static_init_eq hash_of_def length_hash_def)

lemma registry_after_one:
  "registry_after length_hash [InternString ''ab''] = [0 \<mapsto> '''', 2 \<mapsto> ''ab'']"
  by (simp add: registry_after_def init_length_hash internString_snd hash_of_def length_hash_def)

section \<open>The claims\<close>

subsection \<open>C1: round trip\<close>

text \<open>
  Claim C1. Take the table after static initialisation and any sequence of calls, and a
  text \<open>s\<close> whose hash is the hash of no other text the table holds. Then
  \<open>getStringFromHash\<close> of the identifier that \<open>internString s\<close> returns, in the table
  that call leaves, is \<open>s\<close> itself.
\<close>

theorem intern_resolve_roundtrip:
  assumes "\<forall>text\<in>ran (registry_after sh cs). text \<noteq> s \<longrightarrow> hash_of sh text \<noteq> hash_of sh s"
  shows "fst (getStringFromHash (snd (internString sh (registry_after sh cs) s))
               (fst (internString sh (registry_after sh cs) s))) = s"
proof (cases "registry_after sh cs (hash_of sh s)")
  case None
  then show ?thesis
    by (simp add: internString_fst internString_snd getStringFromHash_fst)
next
  case (Some v)
  have "hash_of sh v = hash_of sh s"
    using registry_after_inv [of sh cs] Some by (simp add: registry_inv_def)
  moreover have "v \<in> ran (registry_after sh cs)" using Some by (auto simp: ran_def)
  ultimately have "v = s" using assms by blast
  then show ?thesis using Some
    by (simp add: internString_fst internString_snd getStringFromHash_fst)
qed

text \<open>After \<open>internString ''ab''\<close>, the text \<open>''abc''\<close> collides with nothing stored.\<close>

theorem intern_resolve_roundtrip_witness:
  "fst (getStringFromHash
          (snd (internString length_hash (registry_after length_hash [InternString ''ab'']) ''abc''))
          (fst (internString length_hash (registry_after length_hash [InternString ''ab'']) ''abc'')))
     = ''abc''"
proof -
  have "\<forall>text\<in>ran (registry_after length_hash [InternString ''ab'']).
      text \<noteq> ''abc'' \<longrightarrow> hash_of length_hash text \<noteq> hash_of length_hash ''abc''"
    by (auto simp: registry_after_one ran_def hash_of_def length_hash_def split: if_splits)
  then show ?thesis by (rule intern_resolve_roundtrip)
qed

subsection \<open>C2: the invariant of the table\<close>

text \<open>
  Claim C2. If every key of the table is the hash of the text stored under it, the same
  holds after any call of the interface and after any sequence of calls; and the table
  before is contained in the table after: no entry is removed and no stored text changes.
\<close>

theorem operations_preserve_registry_inv:
  assumes "registry_inv sh m"
  shows "registry_inv sh (snd (exec sh m c)) \<and> m \<subseteq>\<^sub>m snd (exec sh m c) \<and>
         registry_inv sh (snd (run sh m cs)) \<and> m \<subseteq>\<^sub>m snd (run sh m cs)"
  using assms by (simp add: exec_inv exec_map_le run_inv run_map_le)

theorem operations_preserve_registry_inv_witness:
  "registry_inv length_hash
     (snd (exec length_hash (s_internedStrings_init length_hash) (NewFromString ''ab''))) \<and>
   s_internedStrings_init length_hash \<subseteq>\<^sub>m
     snd (exec length_hash (s_internedStrings_init length_hash) (NewFromString ''ab'')) \<and>
   registry_inv length_hash
     (snd (run length_hash (s_internedStrings_init length_hash)
        [InternString ''ab'', NewFromCStr ''cd''])) \<and>
   s_internedStrings_init length_hash \<subseteq>\<^sub>m
     snd (run length_hash (s_internedStrings_init length_hash)
        [InternString ''ab'', NewFromCStr ''cd''])"
proof -
  have "registry_inv length_hash (s_internedStrings_init length_hash)"
    by (simp add: registry_inv_def init_length_hash hash_of_def length_hash_def)
  then show ?thesis by (rule operations_preserve_registry_inv)
qed

subsection \<open>C3: a handle from an unknown identifier\<close>

text \<open>
  Claim C3. The constructor from an identifier never changes the table. When the
  identifier is not a key of the table, it gives no handle: the assertion fails, and a
  sequence of calls that starts with this construction ends there with the table as it was.
\<close>

theorem HashString_id_unknown_fails:
  "snd (HashString_id m str_id) = m \<and>
   (m str_id = None \<longrightarrow>
      fst (HashString_id m str_id) = Inl AssertionFailed \<and>
      run sh m (NewFromID str_id # cs) = (Some AssertionFailed, m))"
  by (simp add: HashString_id_def Let_def map_find_cend_iff failure_def)

theorem HashString_id_unknown_fails_witness:
  "snd (HashString_id (s_internedStrings_init length_hash) 999999) =
     s_internedStrings_init length_hash \<and>
   fst (HashString_id (s_internedStrings_init length_hash) 999999) = Inl AssertionFailed \<and>
   run length_hash (s_internedStrings_init length_hash) [NewFromID 999999, InternString ''ab''] =
     (Some AssertionFailed, s_internedStrings_init length_hash)"
proof -
  have "s_internedStrings_init length_hash 999999 = None"
    by (simp add: init_length_hash)
  then show ?thesis
    using HashString_id_unknown_fails
      [of "s_internedStrings_init length_hash" 999999 length_hash "[InternString ''ab'']"]
    by blast
qed

subsection \<open>C4: interning is idempotent\<close>

text \<open>
  Claim C4. The identifier \<open>internString s\<close> returns is the same in every table. Once
  \<open>s\<close> has been interned, a later \<open>internString s\<close>, after any sequence of calls,
  returns that identifier and leaves the table as it finds it; in particular the table
  after \<open>n + 1\<close> calls of \<open>internString s\<close> in a row is the table after the first.
\<close>

theorem internString_idempotent:
  "fst (internString sh m' s) = fst (internString sh m s) \<and>
   internString sh (snd (run sh (snd (internString sh m s)) cs)) s =
     (fst (internString sh m s), snd (run sh (snd (internString sh m s)) cs)) \<and>
   snd (run sh m (replicate (Suc n) (InternString s))) = snd (internString sh m s)"
proof -
  obtain v where v: "snd (internString sh m s) (hash_of sh s) = Some v"
    using internString_stores [of sh m s] by blast
  have "snd (run sh (snd (internString sh m s)) cs) (hash_of sh s) = Some v"
    using v by (rule run_after_present)
  then have a: "internString sh (snd (run sh (snd (internString sh m s)) cs)) s =
     (fst (internString sh m s), snd (run sh (snd (internString sh m s)) cs))"
    by (simp add: internString_present internString_fst)
  have rep: "m1 (hash_of sh s) = Some v \<Longrightarrow> snd (run sh m1 (replicate k (InternString s))) = m1"
    for m1 k
    by (induction k) (simp_all add: internString_present)
  have "snd (run sh m (replicate (Suc n) (InternString s))) =
      snd (run sh (snd (internString sh m s)) (replicate n (InternString s)))"
    by simp
  then have b: "snd (run sh m (replicate (Suc n) (InternString s))) = snd (internString sh m s)"
    using rep [of "snd (internString sh m s)" n] v by simp
  show ?thesis using a b by (simp add: internString_fst)
qed

theorem internString_idempotent_witness:
  "fst (internString length_hash [2 \<mapsto> ''cd''] ''ab'') =
     fst (internString length_hash (s_internedStrings_init length_hash) ''ab'') \<and>
   internString length_hash
     (snd (run length_hash (snd (internString length_hash (s_internedStrings_init length_hash) ''ab''))
        [InternString ''abc''])) ''ab'' =
     (2, [0 \<mapsto> '''', 2 \<mapsto> ''ab'', 3 \<mapsto> ''abc'']) \<and>
   snd (run length_hash (s_internedStrings_init length_hash) (replicate (Suc 2) (InternString ''ab'')))
     = [0 \<mapsto> '''', 2 \<mapsto> ''ab'']"
  using internString_idempotent
    [of length_hash "[2 \<mapsto> ''cd'']" "''ab''" "s_internedStrings_init length_hash"
      "[InternString ''abc'']" 2]
  by (simp add: init_length_hash internString_snd internString_fst hash_of_def length_hash_def)

subsection \<open>C5: the first text of an identifier stays\<close>

text \<open>
  Claim C5. Let \<open>s1\<close> and \<open>s2\<close> be different texts with the same hash, and let \<open>s1\<close>
  be interned while that identifier is unused. Then \<open>internString s2\<close> returns the same
  identifier and leaves the table as it is, the constructor from the text \<open>s2\<close> gives a
  handle on the entry of \<open>s1\<close> and leaves the table as it is, and after any further
  sequence of calls the text of the identifier is still \<open>s1\<close>.
\<close>

theorem first_interned_text_stays_canonical:
  assumes "s1 \<noteq> s2" and "hash_of sh s1 = hash_of sh s2" and "m (hash_of sh s1) = None"
    and "m1 = snd (internString sh m s1)"
  shows "internString sh m s1 = (hash_of sh s1, m1) \<and>
         internString sh m1 s2 = (hash_of sh s1, m1) \<and>
         HashString_string sh m1 s2 =
           (\<lparr>m_mapPosition = Some (hash_of sh s1, s1), m_hashValue = hash_of sh s1\<rparr>, m1) \<and>
         fst (getStringFromHash (snd (run sh m1 cs)) (hash_of sh s1)) = s1"
proof -
  have m1: "m1 = m(hash_of sh s1 \<mapsto> s1)"
    using assms(3,4) by (simp add: internString_snd)
  then have at: "m1 (hash_of sh s2) = Some s1" using assms(2) by simp
  have a: "internString sh m s1 = (hash_of sh s1, m1)"
    using assms(4) internString_fst [of sh m s1] by (simp add: prod_eq_iff)
  have b: "internString sh m1 s2 = (hash_of sh s1, m1)"
    using internString_present [of m1 sh s2 s1] at assms(2) by simp
  have c: "HashString_string sh m1 s2 =
      (\<lparr>m_mapPosition = Some (hash_of sh s1, s1), m_hashValue = hash_of sh s1\<rparr>, m1)"
    using at assms(2) by (simp add: HashString_string_def Let_def map_insert_def)
  have "snd (run sh m1 cs) (hash_of sh s1) = Some s1"
    using at assms(2) run_after_present [of m1 "hash_of sh s1" s1 sh cs] by simp
  then have d: "fst (getStringFromHash (snd (run sh m1 cs)) (hash_of sh s1)) = s1"
    by (simp add: getStringFromHash_fst)
  show ?thesis using a b c d by simp
qed

text \<open>Under the sample hash, \<open>''ab''\<close> and \<open>''cd''\<close> both get the identifier 2.\<close>

theorem first_interned_text_stays_canonical_witness:
  "internString length_hash (s_internedStrings_init length_hash) ''ab'' =
     (2, [0 \<mapsto> '''', 2 \<mapsto> ''ab'']) \<and>
   internString length_hash [0 \<mapsto> '''', 2 \<mapsto> ''ab''] ''cd'' = (2, [0 \<mapsto> '''', 2 \<mapsto> ''ab'']) \<and>
   HashString_string length_hash [0 \<mapsto> '''', 2 \<mapsto> ''ab''] ''cd'' =
     (\<lparr>m_mapPosition = Some (2, ''ab''), m_hashValue = 2\<rparr>, [0 \<mapsto> '''', 2 \<mapsto> ''ab'']) \<and>
   fst (getStringFromHash
          (snd (run length_hash [0 \<mapsto> '''', 2 \<mapsto> ''ab'']
                  [InternString ''cd'', NewFromString ''cd'', NewFromCStr ''cd'']))
          2) = ''ab''"
proof -
  have h: "hash_of length_hash ''ab'' = 2" "hash_of length_hash ''cd'' = 2"
    by (simp_all add: hash_of_def length_hash_def)
  have f1: "''ab'' \<noteq> ''cd''" by simp
  have f2: "hash_of length_hash ''ab'' = hash_of length_hash ''cd''" by (simp add: h)
  have f3: "s_internedStrings_init length_hash (hash_of length_hash ''ab'') = None"
    by (simp add: h init_length_hash)
  have f4: "[0 \<mapsto> '''', 2 \<mapsto> ''ab''] =
      snd (internString length_hash (s_internedStrings_init length_hash) ''ab'')"
    by (simp add: internString_snd h init_length_hash)
  show ?thesis
    using first_interned_text_stays_canonical [OF f1 f2 f3 f4,
        of "[InternString ''cd'', NewFromString ''cd'', NewFromCStr ''cd'']"]
    by (simp only: h)
qed

subsection \<open>C6: looking an identifier up\<close>

text \<open>
  Claim C6. \<open>getStringFromHash\<close> returns the text stored under the identifier when
  the identifier is a key of the table and the empty string when it is not, and it leaves
  the table as it is.
\<close>

theorem getStringFromHash_pure_lookup:
  "(m i = Some text \<longrightarrow> fst (getStringFromHash m i) = text) \<and>
   (m i = None \<longrightarrow> fst (getStringFromHash m i) = '''') \<and>
   snd (getStringFromHash m i) = m"
  by (simp add: getStringFromHash_fst getStringFromHash_snd)

theorem getStringFromHash_pure_lookup_witness:
  "fst (getStringFromHash [0 \<mapsto> '''', 2 \<mapsto> ''ab''] 2) = ''ab'' \<and>
   fst (getStringFromHash [0 \<mapsto> '''', 2 \<mapsto> ''ab''] 7) = '''' \<and>
   snd (getStringFromHash [0 \<mapsto> '''', 2 \<mapsto> ''ab''] 7) = [0 \<mapsto> '''', 2 \<mapsto> ''ab'']"
  using getStringFromHash_pure_lookup [of "[0 \<mapsto> '''', 2 \<mapsto> ''ab'']" 2 "''ab''"]
    getStringFromHash_pure_lookup [of "[0 \<mapsto> '''', 2 \<mapsto> ''ab'']" 7 "''x''"]
  by simp

subsection \<open>C7: comparisons\<close>

text \<open>
  Claim C7. Two handles are equal exactly when their identifiers are equal; a handle
  equals an identifier exactly when its own identifier is that one; for a handle bound in
  the table, it equals a text exactly when the text the table gives for its identifier is
  that text; and each \<open>!=\<close> is the negation of the \<open>==\<close> of the same operands.
\<close>

theorem handle_comparisons:
  "operator_eq a b = (m_hashValue a = m_hashValue b) \<and>
   operator_eq_id a i = (m_hashValue a = i) \<and>
   operator_ne a b = (\<not> operator_eq a b) \<and>
   operator_ne_id a i = (\<not> operator_eq_id a i) \<and>
   (operator_eq_string a str = Inr r \<longrightarrow> operator_ne_string a str = Inr (\<not> r)) \<and>
   (bound_handle m a \<longrightarrow>
      operator_eq_string a str = Inr (fst (getStringFromHash m (m_hashValue a)) = str) \<and>
      operator_ne_string a str = Inr (\<not> (fst (getStringFromHash m (m_hashValue a)) = str)))"
proof -
  have neg: "operator_eq_string a str = Inr r \<longrightarrow> operator_ne_string a str = Inr (\<not> r)"
    by (auto simp: operator_eq_string_def operator_ne_string_def split: sum.splits)
  have str_cmp: "operator_eq_string a str = Inr (fst (getStringFromHash m (m_hashValue a)) = str) \<and>
      operator_ne_string a str = Inr (\<not> (fst (getStringFromHash m (m_hashValue a)) = str))"
    if bnd: "bound_handle m a"
    using bound_handle_getString [OF bnd]
    by (simp add: operator_eq_string_def operator_ne_string_def)
  show ?thesis
    using neg str_cmp
    by (simp add: operator_eq_def operator_ne_def operator_eq_id_def operator_ne_id_def)
qed

theorem handle_comparisons_witness:
  "operator_eq \<lparr>m_mapPosition = Some (2, ''ab''), m_hashValue = 2\<rparr>
     \<lparr>m_mapPosition = Some (0, ''''), m_hashValue = 0\<rparr> = False \<and>
   operator_eq_id \<lparr>m_mapPosition = Some (2, ''ab''), m_hashValue = 2\<rparr> 2 = True \<and>
   operator_ne \<lparr>m_mapPosition = Some (2, ''ab''), m_hashValue = 2\<rparr>
     \<lparr>m_mapPosition = Some (0, ''''), m_hashValue = 0\<rparr> = True \<and>
   operator_ne_id \<lparr>m_mapPosition = Some (2, ''ab''), m_hashValue = 2\<rparr> 2 = False \<and>
   operator_eq_string \<lparr>m_mapPosition = Some (2, ''ab''), m_hashValue = 2\<rparr> ''ab'' = Inr True \<and>
   operator_ne_string \<lparr>m_mapPosition = Some (2, ''ab''), m_hashValue = 2\<rparr> ''ab'' = Inr False"
proof -
  have "bound_handle [0 \<mapsto> '''', 2 \<mapsto> ''ab''] \<lparr>m_mapPosition = Some (2, ''ab''), m_hashValue = 2\<rparr>"
    by (simp add: bound_handle_def map_find_def cend_def)
  then show ?thesis
    using handle_comparisons
      [of "\<lparr>m_mapPosition = Some (2, ''ab''), m_hashValue = 2\<rparr>"
        "\<lparr>m_mapPosition = Some (0, ''''), m_hashValue = 0\<rparr>" 2 "''ab''" True
        "[0 \<mapsto> '''', 2 \<mapsto> ''ab'']"]
    by (simp add: getStringFromHash_fst)
qed

subsection \<open>C8: being interned\<close>

text \<open>
  Claim C8, as amended. \<open>isStringInterned s\<close> is true in the table \<open>internString s\<close>
  leaves; once it is true it is true after any further sequence of calls; and after static
  initialisation and a sequence of calls it is false provided the hash of \<open>s\<close> is not the
  hash of the empty string, which static initialisation registers, and no call of the
  sequence hands the table a text with the hash of \<open>s\<close>.
\<close>

theorem isStringInterned_after_intern:
  "fst (isStringInterned sh (snd (internString sh m s)) s) \<and>
   (fst (isStringInterned sh m s) \<longrightarrow> fst (isStringInterned sh (snd (run sh m cs)) s)) \<and>
   (hash_of sh s \<noteq> hash_of sh '''' \<and>
    (\<forall>c\<in>set cs. \<forall>text. registers c = Some text \<longrightarrow> hash_of sh text \<noteq> hash_of sh s) \<longrightarrow>
      \<not> fst (isStringInterned sh (registry_after sh cs) s))"
proof -
  have a: "fst (isStringInterned sh (snd (internString sh m s)) s)"
    by (simp add: isStringInterned_fst internString_stores)
  have b: "fst (isStringInterned sh (snd (run sh m cs)) s)" if held: "fst (isStringInterned sh m s)"
  proof -
    obtain v where "m (hash_of sh s) = Some v" using held by (auto simp: isStringInterned_fst)
    then have "snd (run sh m cs) (hash_of sh s) = Some v" by (rule run_after_present)
    then show ?thesis by (simp add: isStringInterned_fst)
  qed
  have c: "\<not> fst (isStringInterned sh (registry_after sh cs) s)"
    if ne: "hash_of sh s \<noteq> hash_of sh ''''"
      and fresh: "\<forall>c\<in>set cs. \<forall>text. registers c = Some text \<longrightarrow> hash_of sh text \<noteq> hash_of sh s"
  proof
    assume "fst (isStringInterned sh (registry_after sh cs) s)"
    then have "hash_of sh s \<in> dom (registry_after sh cs)"
      by (auto simp: isStringInterned_fst)
    then have "hash_of sh s \<in> dom (s_internedStrings_init sh) \<union>
        hash_of sh ` {str. \<exists>c\<in>set cs. registers c = Some str}"
      using run_dom [of sh "s_internedStrings_init sh" cs] by (auto simp: registry_after_def)
    moreover have "dom (s_internedStrings_init sh) = {hash_of sh ''''}"
      by (simp add: s_internedStrings_init_def static_init_eq)
    ultimately show False using ne fresh by auto
  qed
  show ?thesis using a b c by blast
qed

theorem isStringInterned_after_intern_witness:
  "fst (isStringInterned length_hash
     (snd (internString length_hash (s_internedStrings_init length_hash) ''ab'')) ''ab'') \<and>
   fst (isStringInterned length_hash
     (snd (run length_hash [0 \<mapsto> '''', 2 \<mapsto> ''ab''] [InternString ''abc'', NewFromID 7])) ''ab'') \<and>
   \<not> fst (isStringInterned length_hash
     (registry_after length_hash [InternString ''abc'', GetStringFromHash 2]) ''ab'')"
proof -
  have p: "fst (isStringInterned length_hash [0 \<mapsto> '''', 2 \<mapsto> ''ab''] ''ab'')"
    by (simp add: isStringInterned_fst hash_of_def length_hash_def)
  have q: "hash_of length_hash ''ab'' \<noteq> hash_of length_hash ''''"
    by (simp add: hash_of_def length_hash_def)
  have r: "\<forall>c\<in>set [InternString ''abc'', GetStringFromHash 2]. \<forall>text.
      registers c = Some text \<longrightarrow> hash_of length_hash text \<noteq> hash_of length_hash ''ab''"
    by (simp add: hash_of_def length_hash_def)
  show ?thesis
    using isStringInterned_after_intern
      [of length_hash "s_internedStrings_init length_hash" "''ab''" "[]"]
      isStringInterned_after_intern
      [of length_hash "[0 \<mapsto> '''', 2 \<mapsto> ''ab'']" "''ab''" "[InternString ''abc'', NewFromID 7]"]
      isStringInterned_after_intern
      [of length_hash Map.empty "''ab''" "[InternString ''abc'', GetStringFromHash 2]"]
      p q r
    by blast
qed

text \<open>
  The claim as first stated says \<open>isStringInterned s\<close> is false before the first
  \<open>internString s\<close>, for every text. Right after static initialisation, with no call
  made, it is true of the empty string: \<open>s_kEmptyString\<close> has registered it.
\<close>

theorem isStringInterned_empty_before_intern_counterexample:
  "InternString '''' \<notin> set ([] :: operation list) \<and>
   fst (isStringInterned length_hash (registry_after length_hash []) '''')"
  by (simp add: registry_after_def s_internedStrings_init_def static_init_eq isStringInterned_fst)

text \<open>
  The same holds for every hash function, and the two other ways a text is interned
  without \<open>internString\<close> of it: a handle built from the text, and an earlier text with
  the same hash.
\<close>

lemma isStringInterned_empty_at_start:
  "fst (isStringInterned sh (registry_after sh []) '''')"
  by (simp add: registry_after_def s_internedStrings_init_def static_init_eq isStringInterned_fst)

lemma isStringInterned_after_handle:
  "fst (isStringInterned sh (registry_after sh [NewFromString s]) s)"
  by (simp add: registry_after_def HashString_string_snd isStringInterned_fst internString_stores)

lemma isStringInterned_after_collision:
  "fst (isStringInterned length_hash (registry_after length_hash [InternString ''cd'']) ''ab'')"
  by (simp add: registry_after_def init_length_hash internString_snd isStringInterned_fst
      hash_of_def length_hash_def)

subsection \<open>C9: the default handle\<close>

text \<open>
  Claim C9. The handle of the default constructor equals \<open>s_kEmptyString\<close> and its text
  is the empty string. The construction cannot fail and leaves the table as it is; after
  static initialisation and any sequence of calls the handle is bound in the table, and
  it is the handle that the constructor from the empty text gives there.
\<close>

theorem default_handle_is_empty_string:
  "operator_eq (HashString_default sh) (s_kEmptyString sh) \<and>
   getString (HashString_default sh) = Inr '''' \<and>
   exec sh (registry_after sh cs) NewDefault = (None, registry_after sh cs) \<and>
   bound_handle (registry_after sh cs) (HashString_default sh) \<and>
   HashString_string sh (registry_after sh cs) '''' = (HashString_default sh, registry_after sh cs)"
proof -
  have at: "registry_after sh cs (hash_of sh '''') = Some ''''" by (rule registry_after_empty)
  have a: "operator_eq (HashString_default sh) (s_kEmptyString sh)"
    by (simp add: operator_eq_def HashString_default_eq s_kEmptyString_eq)
  have b: "getString (HashString_default sh) = Inr ''''"
    by (simp add: getString_def HashString_default_eq)
  have c: "bound_handle (registry_after sh cs) (HashString_default sh)"
    using at by (simp add: bound_handle_def HashString_default_eq map_find_def cend_def)
  have d: "HashString_string sh (registry_after sh cs) '''' =
      (HashString_default sh, registry_after sh cs)"
    using at by (simp add: HashString_string_def Let_def map_insert_def HashString_default_eq)
  show ?thesis using a b c d by simp
qed

theorem default_handle_is_empty_string_witness:
  "operator_eq (HashString_default length_hash) (s_kEmptyString length_hash) \<and>
   getString (HashString_default length_hash) = Inr '''' \<and>
   bound_handle (registry_after length_hash [InternString ''ab'', NewFromString '''', NewDefault])
     (HashString_default length_hash)"
  using default_handle_is_empty_string
    [of length_hash "[InternString ''ab'', NewFromString '''', NewDefault]"]
  by simp

subsection \<open>C10: not found reads as the empty string\<close>

text \<open>
  Claim C10. After static initialisation and any sequence of calls, let \<open>id0\<close> be the
  identifier \<open>internString\<close> of the empty string returns and \<open>m1\<close> the table it
  leaves. Then \<open>getStringFromHash\<close> of \<open>id0\<close> is the empty string, and so is
  \<open>getStringFromHash\<close> of any identifier that is not a key of \<open>m1\<close>: the two results
  are equal.
\<close>

theorem not_found_same_as_empty_string:
  assumes "id0 = fst (internString sh (registry_after sh cs) '''')"
    and "m1 = snd (internString sh (registry_after sh cs) '''')"
    and "m1 i = None"
  shows "fst (getStringFromHash m1 id0) = '''' \<and>
         fst (getStringFromHash m1 i) = fst (getStringFromHash m1 id0)"
proof -
  have at: "registry_after sh cs (hash_of sh '''') = Some ''''" by (rule registry_after_empty)
  have "m1 = registry_after sh cs" using assms(2) at by (simp add: internString_snd)
  then have "m1 id0 = Some ''''" using assms(1) at by (simp add: internString_fst)
  then show ?thesis using assms(3) by (simp add: getStringFromHash_fst)
qed

theorem not_found_same_as_empty_string_witness:
  "fst (getStringFromHash [0 \<mapsto> '''', 2 \<mapsto> ''ab''] 0) = '''' \<and>
   fst (getStringFromHash [0 \<mapsto> '''', 2 \<mapsto> ''ab''] 999999) =
     fst (getStringFromHash [0 \<mapsto> '''', 2 \<mapsto> ''ab''] 0)"
proof -
  have r: "registry_after length_hash [InternString ''ab''] = [0 \<mapsto> '''', 2 \<mapsto> ''ab'']"
    by (rule registry_after_one)
  have f1: "0 = fst (internString length_hash (registry_after length_hash [InternString ''ab'']) '''')"
    by (simp add: internString_fst hash_of_def length_hash_def)
  have f2: "[0 \<mapsto> '''', 2 \<mapsto> ''ab''] =
      snd (internString length_hash (registry_after length_hash [InternString ''ab'']) '''')"
    by (simp add: r internString_snd hash_of_def length_hash_def)
  have f3: "[0 \<mapsto> '''', 2 \<mapsto> ''ab''] (999999 :: StringID) = None" by simp
  show ?thesis by (rule not_found_same_as_empty_string [OF f1 f2 f3])
qed

end
